theory Spec2Isabelle
  imports Complex_Main "HOL-Library.AList"
begin

section \<open>Python values the two modules rely on\<close>

text \<open>
  The exceptions that \<^verbatim>\<open>munge.py\<close> and \<^verbatim>\<open>analyze.py\<close> raise themselves or
  let escape from the builtins they call.
\<close>

datatype error =
    ValueError
  | IndexError
  | KeyError
  | ZeroDivisionError
  | FileNotFoundError
  | FileExistsError

text \<open>
  The builtins \<^verbatim>\<open>int(s)\<close>, \<^verbatim>\<open>float(s)\<close>, float arithmetic and
  \<^verbatim>\<open>"%.1f" % v\<close> belong to the Python runtime, not to the repository. They are
  parameters of the model: \<open>'f\<close> is the type of float values, \<open>None\<close> from a
  conversion stands for the \<^verbatim>\<open>ValueError\<close> the builtin raises. Every general
  theorem below holds for any such operations, IEEE doubles included.
\<close>

record 'f builtins =
  int_of_str :: "string \<Rightarrow> int option"
  float_of_str :: "string \<Rightarrow> 'f option"
  float_of_int :: "int \<Rightarrow> 'f"
  float_add :: "'f \<Rightarrow> 'f \<Rightarrow> 'f"
  float_mul :: "'f \<Rightarrow> 'f \<Rightarrow> 'f"
  float_div :: "'f \<Rightarrow> 'f \<Rightarrow> 'f"
  float_lit_1_8 :: "'f"
  format_1f :: "'f \<Rightarrow> string"

section \<open>analyze.py\<close>

definition YEAR_INDEX :: string where
  "YEAR_INDEX = ''Year''"

definition ANN_MEAN_INDEX :: string where
  "ANN_MEAN_INDEX = ''J-D''"

text \<open>
  A Python dictionary is an association list in insertion order: \<^verbatim>\<open>d[k]\<close> raises
  \<^verbatim>\<open>KeyError\<close> on a missing key, \<^verbatim>\<open>d[k] = v\<close> replaces the entry of
  \<open>k\<close> or appends one, \<^verbatim>\<open>not d\<close> holds of the empty dictionary only. A row
  of the \<^verbatim>\<open>csv.DictReader\<close> is a dictionary from column names to cell texts.
\<close>

type_synonym ('k, 'v) dict = "('k \<times> 'v) list"

type_synonym row_dict = "(string, string) dict"

definition dict_get :: "('k, 'v) dict \<Rightarrow> 'k \<Rightarrow> error + 'v" where
  "dict_get d k = (case map_of d k of None \<Rightarrow> Inl KeyError | Some v \<Rightarrow> Inr v)"

definition dict_set :: "('k, 'v) dict \<Rightarrow> 'k \<Rightarrow> 'v \<Rightarrow> ('k, 'v) dict" where
  "dict_set d k v = AList.update k v d"

text \<open>
  \<^verbatim>\<open>anomaly_sum / n\<close> with a float on the left and an int on the right: the int
  is converted and a zero divisor raises \<^verbatim>\<open>ZeroDivisionError\<close>.
\<close>

definition truediv_int :: "'f builtins \<Rightarrow> 'f \<Rightarrow> int \<Rightarrow> error + 'f" where
  "truediv_int ops x n =
     (if n = 0 then Inl ZeroDivisionError
      else Inr (float_div ops x (float_of_int ops n)))"

text \<open>
  Each \<^verbatim>\<open>print\<close> of \<^verbatim>\<open>_display_periodic_avg\<close> reports one window: the start
  year, the end year and the average. The model collects the printed windows in order;
  the wording of the printed line is not modelled.
\<close>

type_synonym 'f window = "int \<times> int \<times> 'f"

text \<open>
  The loop state: the dictionary \<^verbatim>\<open>year_range\<close> (keys \<^verbatim>\<open>"start"\<close> and
  \<^verbatim>\<open>"end"\<close>), \<^verbatim>\<open>anomaly_sum\<close> and what has been printed so far.
  \<^verbatim>\<open>anomaly_sum = 0\<close> is the int 0, which the first \<^verbatim>\<open>+=\<close> converts.
\<close>

record 'f avg_state =
  year_range :: "(string, int) dict"
  anomaly_sum :: "'f"
  printed :: "'f window list"

definition read_row :: "'f builtins \<Rightarrow> row_dict \<Rightarrow> error + (int \<times> 'f)" where
  "read_row ops row =
     (case dict_get row YEAR_INDEX of Inl e \<Rightarrow> Inl e | Inr ys \<Rightarrow>
      case int_of_str ops ys of None \<Rightarrow> Inl ValueError | Some this_year \<Rightarrow>
      case dict_get row ANN_MEAN_INDEX of Inl e \<Rightarrow> Inl e | Inr vs \<Rightarrow>
      case float_of_str ops vs of None \<Rightarrow> Inl ValueError | Some curr_anomaly \<Rightarrow>
        Inr (this_year, curr_anomaly))"

text \<open>The rest of the loop body, from \<^verbatim>\<open>if not year_range\<close> on.\<close>

definition accumulate ::
  "'f builtins \<Rightarrow> int \<Rightarrow> 'f avg_state \<Rightarrow> int \<times> 'f \<Rightarrow> error + 'f avg_state" where
  "accumulate ops period st rec =
     (let this_year = fst rec; curr_anomaly = snd rec;
          yr1 = (if year_range st = []
                 then dict_set (year_range st) ''start'' this_year else year_range st);
          sum1 = float_add ops (anomaly_sum st) curr_anomaly;
          yr2 = dict_set yr1 ''end'' this_year
      in case dict_get yr2 ''start'' of Inl e \<Rightarrow> Inl e | Inr start_year \<Rightarrow>
         if this_year - start_year + 1 = period then
           (case dict_get yr2 ''end'' of Inl e \<Rightarrow> Inl e | Inr end_year \<Rightarrow>
            case truediv_int ops sum1 period of Inl e \<Rightarrow> Inl e | Inr avg \<Rightarrow>
              Inr \<lparr>year_range = [], anomaly_sum = float_of_int ops 0,
                   printed = printed st @ [(start_year, end_year, avg)]\<rparr>)
         else Inr \<lparr>year_range = yr2, anomaly_sum = sum1, printed = printed st\<rparr>)"

definition loop_body ::
  "'f builtins \<Rightarrow> int \<Rightarrow> 'f avg_state \<Rightarrow> row_dict \<Rightarrow> error + 'f avg_state" where
  "loop_body ops period st row =
     (case read_row ops row of Inl e \<Rightarrow> Inl e
      | Inr rec \<Rightarrow> accumulate ops period st rec)"

text \<open>
  \<^verbatim>\<open>for row in reader\<close>: an exception leaves the loop with what was printed
  before it.
\<close>

fun for_rows ::
  "'f builtins \<Rightarrow> int \<Rightarrow> 'f avg_state \<Rightarrow> row_dict list \<Rightarrow> error option \<times> 'f avg_state" where
  "for_rows ops period st [] = (None, st)"
| "for_rows ops period st (row # rows) =
     (case loop_body ops period st row of
        Inl e \<Rightarrow> (Some e, st)
      | Inr st' \<Rightarrow> for_rows ops period st' rows)"

text \<open>The part after the loop (\<^verbatim>\<open># Process unreported value\<close>).\<close>

definition process_unreported ::
  "'f builtins \<Rightarrow> bool \<Rightarrow> 'f avg_state \<Rightarrow> error + 'f window list" where
  "process_unreported ops print_last st =
     (if year_range st \<noteq> [] \<and> print_last then
        (case dict_get (year_range st) ''end'' of Inl e \<Rightarrow> Inl e | Inr end_year \<Rightarrow>
         case dict_get (year_range st) ''start'' of Inl e \<Rightarrow> Inl e | Inr start_year \<Rightarrow>
         case truediv_int ops (anomaly_sum st) (end_year - start_year + 1) of
           Inl e \<Rightarrow> Inl e
         | Inr avg \<Rightarrow> Inr (printed st @ [(start_year, end_year, avg)]))
      else Inr (printed st))"

text \<open>
  \<^verbatim>\<open>_display_periodic_avg(reader, period=..., print_last=...)\<close>. The result is the
  exception that escaped, if any, and the windows printed.
\<close>

definition display_periodic_avg ::
  "'f builtins \<Rightarrow> row_dict list \<Rightarrow> int \<Rightarrow> bool \<Rightarrow> error option \<times> 'f window list" where
  "display_periodic_avg ops reader period print_last =
     (case for_rows ops period
             \<lparr>year_range = [], anomaly_sum = float_of_int ops 0, printed = []\<rparr> reader of
        (Some e, st) \<Rightarrow> (Some e, printed st)
      | (None, st) \<Rightarrow>
          (case process_unreported ops print_last st of
             Inl e \<Rightarrow> (Some e, printed st)
           | Inr out \<Rightarrow> (None, out)))"

section \<open>munge.py: arguments, files and text\<close>

text \<open>
  \<^verbatim>\<open>parse_fixed_width_data\<close> checks the dynamic type of its arguments
  (\<^verbatim>\<open>type(x) == int\<close>), so the arguments \<^verbatim>\<open>start\<close>, \<^verbatim>\<open>end\<close> and
  \<^verbatim>\<open>col_len\<close> are Python values. \<open>PyFloat\<close> carries the value of a finite float.
\<close>

datatype pyval = PyNone | PyBool bool | PyInt int | PyFloat rat | PyStr string

text \<open>\<^verbatim>\<open>type(x) == int and x > 0\<close>; the type of \<^verbatim>\<open>True\<close> is \<^verbatim>\<open>bool\<close>.\<close>

definition is_postive_integer :: "pyval \<Rightarrow> bool" where
  "is_postive_integer x = (case x of PyInt n \<Rightarrow> 0 < n | _ \<Rightarrow> False)"

text \<open>\<^verbatim>\<open>x != 0\<close> and the truth value of \<^verbatim>\<open>x\<close>.\<close>

definition ne_zero :: "pyval \<Rightarrow> bool" where
  "ne_zero x =
     (case x of PyNone \<Rightarrow> True | PyBool b \<Rightarrow> b | PyInt n \<Rightarrow> n \<noteq> 0
      | PyFloat q \<Rightarrow> q \<noteq> 0 | PyStr s \<Rightarrow> True)"

definition truthy :: "pyval \<Rightarrow> bool" where
  "truthy x =
     (case x of PyNone \<Rightarrow> False | PyBool b \<Rightarrow> b | PyInt n \<Rightarrow> n \<noteq> 0
      | PyFloat q \<Rightarrow> q \<noteq> 0 | PyStr s \<Rightarrow> s \<noteq> [])"

text \<open>
  The int held by a value that has passed the checks of \<^verbatim>\<open>parse_fixed_width_data\<close>.
  It is applied only to such values, which are ints; a \<^verbatim>\<open>bool\<close> counts as 0 or 1 as
  it does in Python.
\<close>

definition as_int :: "pyval \<Rightarrow> int" where
  "as_int x = (case x of PyInt n \<Rightarrow> n | PyBool b \<Rightarrow> (if b then 1 else 0) | _ \<Rightarrow> 0)"

definition NO_RESTRICTION :: int where
  "NO_RESTRICTION = 0"

text \<open>
  The file system: the text of each regular file by path, and the record of every
  \<^verbatim>\<open>open\<close> call in order. The text is what text mode delivers (decoded, line ends
  as \<^verbatim>\<open>\n\<close>); the \<^verbatim>\<open>encoding\<close> argument is not modelled.
\<close>

datatype io_event = OpenRead string | OpenWrite string

record world =
  files :: "(string, string) dict"
  opened :: "io_event list"

definition isfile :: "world \<Rightarrow> string \<Rightarrow> bool" where
  "isfile w path = (map_of (files w) path \<noteq> None)"

text \<open>\<^verbatim>\<open>",".join(row)\<close>.\<close>

fun join :: "string \<Rightarrow> string list \<Rightarrow> string" where
  "join sep [] = []"
| "join sep [x] = x"
| "join sep (x # y # ys) = x @ sep @ join sep (y # ys)"

text \<open>
  \<^verbatim>\<open>data_file.readline()\<close> on the text still unread: the line with its
  \<^verbatim>\<open>\n\<close>, and the empty string at the end of the file.
\<close>

fun readline :: "string \<Rightarrow> string \<times> string" where
  "readline [] = ([], [])"
| "readline (c # cs) =
     (if c = CHR 0x0A then ([c], cs)
      else (case readline cs of (l, r) \<Rightarrow> (c # l, r)))"

text \<open>
  \<^verbatim>\<open>\s\<close> in a \<^verbatim>\<open>str\<close> pattern, on the code points below 256: tab to carriage
  return, the four separators 28 to 31, space, next line and no-break space.
\<close>

definition is_space :: "char \<Rightarrow> bool" where
  "is_space c = ((of_char c :: nat) \<in> set [9, 10, 11, 12, 13, 28, 29, 30, 31, 32, 133, 160])"

text \<open>
  \<^verbatim>\<open>re.split("[\s]+", s, maxsplit=maxsplit)\<close>: while \<open>maxsplit\<close> is zero or fewer than
  \<open>maxsplit\<close> splits were made, the next run of whitespace ends a piece; what is left
  after the last split is the final piece.
\<close>

function re_split_from :: "nat \<Rightarrow> int \<Rightarrow> string \<Rightarrow> string list" where
  "re_split_from n maxsplit s =
     (if maxsplit = 0 \<or> int n < maxsplit then
        (case dropWhile (\<lambda>c. \<not> is_space c) s of
           [] \<Rightarrow> [s]
         | c # r \<Rightarrow>
             takeWhile (\<lambda>c. \<not> is_space c) s
               # re_split_from (Suc n) maxsplit (dropWhile is_space r))
      else [s])"
  by pat_completeness auto
termination
proof (relation "measure (\<lambda>(n, maxsplit, s). length s)")
  show "wf (measure (\<lambda>(n, maxsplit, s). length s))" by simp
next
  fix n :: nat and maxsplit :: int and s :: string and c :: char and r :: string
  assume "dropWhile (\<lambda>c. \<not> is_space c) s = c # r"
  then have "length (c # r) \<le> length s"
    by (metis length_dropWhile_le)
  moreover have "length (dropWhile is_space r) \<le> length r"
    by (rule length_dropWhile_le)
  ultimately show "((Suc n, maxsplit, dropWhile is_space r), (n, maxsplit, s))
      \<in> measure (\<lambda>(n, maxsplit, s). length s)"
    by simp
qed

declare re_split_from.simps [simp del]

definition re_split :: "int \<Rightarrow> string \<Rightarrow> string list" where
  "re_split maxsplit s = re_split_from 0 maxsplit s"

text \<open>\<^verbatim>\<open>xs[:k]\<close>; a negative \<open>k\<close> counts from the end.\<close>

definition slice_to :: "'a list \<Rightarrow> int \<Rightarrow> 'a list" where
  "slice_to xs k = (if k < 0 then take (nat (int (length xs) + k)) xs else take (nat k) xs)"

text \<open>\<^verbatim>\<open>range(a, b)\<close>.\<close>

definition py_range :: "int \<Rightarrow> int \<Rightarrow> int list" where
  "py_range a b = [a..b - 1]"

section \<open>munge.py: write\_csv\<close>

text \<open>
  \<^verbatim>\<open>write_csv(destination, data, overwrite=...)\<close>: the existence check, then the
  file is created or truncated and every row written as its fields joined by commas and
  a \<^verbatim>\<open>\n\<close>. The file system is flat: \<^verbatim>\<open>open(destination, "w")\<close> succeeds
  on every path but the empty one, on which it raises \<^verbatim>\<open>FileNotFoundError\<close>.
\<close>

definition csv_text :: "string list list \<Rightarrow> string" where
  "csv_text tbl = concat (map (\<lambda>row. join '','' row @ [CHR 0x0A]) tbl)"

definition write_csv :: "world \<Rightarrow> string \<Rightarrow> string list list \<Rightarrow> bool \<Rightarrow> (error + unit) \<times> world" where
  "write_csv w destination tbl overwrite =
     (if \<not> overwrite \<and> isfile w destination then (Inl FileExistsError, w)
      else if destination = []
      then (Inl FileNotFoundError, w\<lparr>opened := opened w @ [OpenWrite destination]\<rparr>)
      else (Inr (),
            w\<lparr>files := dict_set (files w) destination (csv_text tbl),
              opened := opened w @ [OpenWrite destination]\<rparr>))"

section \<open>munge.py: parse\_fixed\_width\_data\<close>

text \<open>
  The state of the parsing loop: the unread text of \<^verbatim>\<open>data_file\<close>,
  \<^verbatim>\<open>header\<close> (\<open>None\<close> until the first row is accepted) and \<^verbatim>\<open>data\<close>.
\<close>

record parse_state =
  p_file :: string
  p_header :: "string list option"
  p_data :: "string list list"

text \<open>\<^verbatim>\<open>for _ in range(start - 1): data_file.readline()\<close>\<close>

definition skip_lines :: "int \<Rightarrow> string \<Rightarrow> string" where
  "skip_lines start txt = foldl (\<lambda>fh _. snd (readline fh)) txt (py_range 0 (start - 1))"

text \<open>
  One pass of the loop over \<^verbatim>\<open>row_number\<close>. \<^verbatim>\<open>if header and ...\<close> tests the
  truth value of \<^verbatim>\<open>header\<close>: \<^verbatim>\<open>None\<close> and the empty list are both false.
\<close>

definition parse_row :: "int \<Rightarrow> int \<Rightarrow> parse_state \<Rightarrow> int \<Rightarrow> parse_state" where
  "parse_row start maxsplit st row_number =
     (case readline (p_file st) of (line, rest) \<Rightarrow>
      let source_row = re_split maxsplit line;
          data_row = slice_to source_row (min (int (length source_row)) maxsplit)
      in if (case p_header st of None \<Rightarrow> False
             | Some h \<Rightarrow> h \<noteq> [] \<and> length data_row \<noteq> length h)
         then st\<lparr>p_file := rest\<rparr>
         else if Some data_row = p_header st
         then st\<lparr>p_file := rest\<rparr>
         else \<lparr>p_file = rest,
               p_header = (if row_number = start then Some data_row else p_header st),
               p_data = p_data st @ [data_row]\<rparr>)"

definition parse_rows :: "int \<Rightarrow> int \<Rightarrow> int \<Rightarrow> string \<Rightarrow> string list list" where
  "parse_rows start endl maxsplit txt =
     p_data (foldl (parse_row start maxsplit)
               \<lparr>p_file = skip_lines start txt, p_header = None, p_data = []\<rparr>
               (py_range start (endl + 1)))"

text \<open>
  \<^verbatim>\<open>parse_fixed_width_data(path, start=..., end=..., col_len=..., destination=...,
  overwrite=...)\<close> (\<open>endl\<close> is the argument \<^verbatim>\<open>end\<close>). The result is the exception or
  the returned value (\<open>Some\<close> table, or \<open>None\<close> when a destination was written), and
  the file system afterwards.
\<close>

definition parse_fixed_width_data ::
  "world \<Rightarrow> string \<Rightarrow> pyval \<Rightarrow> pyval \<Rightarrow> pyval \<Rightarrow> string \<Rightarrow> bool
     \<Rightarrow> (error + string list list option) \<times> world" where
  "parse_fixed_width_data w path start endl col_len destination overwrite =
     (if \<not> is_postive_integer start then (Inl ValueError, w)
      else if \<not> is_postive_integer endl then (Inl ValueError, w)
      else if as_int start > as_int endl then (Inl ValueError, w)
      else if col_len \<noteq> PyNone \<and> \<not> is_postive_integer col_len \<and> ne_zero col_len
      then (Inl ValueError, w)
      else
        let maxsplit = (if truthy col_len then as_int col_len else NO_RESTRICTION);
            w1 = w\<lparr>opened := opened w @ [OpenRead path]\<rparr>
        in case map_of (files w) path of
             None \<Rightarrow> (Inl FileNotFoundError, w1)
           | Some txt \<Rightarrow>
               let tbl = parse_rows (as_int start) (as_int endl) maxsplit txt
               in if destination = [] then (Inr (Some tbl), w1)
                  else (case write_csv w1 destination tbl overwrite of
                          (Inl e, w2) \<Rightarrow> (Inl e, w2)
                        | (Inr u, w2) \<Rightarrow> (Inr None, w2)))"

section \<open>munge.py: \_to\_farenheit\<close>

type_synonym table = "string list list"

definition TO_FARENHEIT_COEFFICIENT :: "'f builtins \<Rightarrow> 'f" where
  "TO_FARENHEIT_COEFFICIENT ops = float_lit_1_8 ops"

text \<open>
  The position that \<^verbatim>\<open>xs[i]\<close> reads or writes: a negative index counts from the
  end, and \<open>None\<close> stands for \<^verbatim>\<open>IndexError\<close>.
\<close>

definition py_index :: "'a list \<Rightarrow> int \<Rightarrow> nat option" where
  "py_index xs i =
     (if 0 \<le> i \<and> i < int (length xs) then Some (nat i)
      else if i < 0 \<and> - int (length xs) \<le> i then Some (nat (int (length xs) + i))
      else None)"

text \<open>
  \<^verbatim>\<open>entry.isnumeric\<close> is written without the call parentheses: it is the bound
  method object, and the truth value of a method object is \<^verbatim>\<open>True\<close> for every
  string.
\<close>

definition isnumeric_method_truth :: "string \<Rightarrow> bool" where
  "isnumeric_method_truth entry = True"

text \<open>
  The body of the inner loop on one cell. The table is a list of rows held by value;
  the rows of a table built by \<^verbatim>\<open>parse_fixed_width_data\<close> are distinct objects.
\<close>

definition convert_entry :: "'f builtins \<Rightarrow> table \<Rightarrow> int \<Rightarrow> int \<Rightarrow> error + table" where
  "convert_entry ops tbl row_index col_index =
     (case py_index tbl row_index of None \<Rightarrow> Inl IndexError | Some i \<Rightarrow>
      case py_index (tbl ! i) col_index of None \<Rightarrow> Inl IndexError | Some j \<Rightarrow>
        let entry = tbl ! i ! j
        in if \<not> isnumeric_method_truth entry then Inr tbl
           else (case float_of_str ops entry of None \<Rightarrow> Inl ValueError
                 | Some x \<Rightarrow>
                     let val = float_mul ops x (TO_FARENHEIT_COEFFICIENT ops)
                     in Inr (tbl[i := (tbl ! i)[j := format_1f ops val]])))"

text \<open>
  The two nested iterations. An exception leaves them with the cells converted so far, since the
  table is changed in place.
\<close>

fun convert_cols :: "'f builtins \<Rightarrow> int \<Rightarrow> int list \<Rightarrow> table \<Rightarrow> error option \<times> table" where
  "convert_cols ops row_index [] tbl = (None, tbl)"
| "convert_cols ops row_index (col_index # cols) tbl =
     (case convert_entry ops tbl row_index col_index of
        Inl e \<Rightarrow> (Some e, tbl)
      | Inr tbl' \<Rightarrow> convert_cols ops row_index cols tbl')"

fun convert_rows :: "'f builtins \<Rightarrow> int list \<Rightarrow> int list \<Rightarrow> table \<Rightarrow> error option \<times> table" where
  "convert_rows ops [] cols tbl = (None, tbl)"
| "convert_rows ops (row_index # rows) cols tbl =
     (case convert_cols ops row_index cols tbl of
        (Some e, tbl') \<Rightarrow> (Some e, tbl')
      | (None, tbl') \<Rightarrow> convert_rows ops rows cols tbl')"

text \<open>\<^verbatim>\<open>e if e else d\<close> for an entry of the list \<^verbatim>\<open>end\<close>: \<^verbatim>\<open>None\<close> and 0 are false.\<close>

definition resolve_bound :: "int option \<Rightarrow> int \<Rightarrow> int" where
  "resolve_bound e d = (case e of None \<Rightarrow> d | Some v \<Rightarrow> if v \<noteq> 0 then v else d)"

text \<open>
  \<^verbatim>\<open>_to_farenheit(data, start=..., end=...)\<close> with the table \<open>tbl\<close> and the two-element
  list \<open>endb\<close>. Both are changed in place, so the result carries the exception if any,
  the table and the list as the call leaves them. The bound of the list's second entry is
  \<^verbatim>\<open>len(data[0][0])\<close>, the length of the first string of the first row, and both
  iterations run up to \<^verbatim>\<open>end[1]\<close>.
\<close>

definition to_farenheit ::
  "'f builtins \<Rightarrow> table \<Rightarrow> int \<times> int \<Rightarrow> int option \<times> int option
     \<Rightarrow> error option \<times> table \<times> (int option \<times> int option)" where
  "to_farenheit ops tbl start endb =
     (if length tbl = 0 \<or> length (tbl ! 0) = 0 then (None, tbl, endb)
      else
        let end0 = resolve_bound (fst endb) (int (length tbl));
            end1 = resolve_bound (snd endb) (int (length (tbl ! 0 ! 0)))
        in case convert_rows ops (py_range (fst start) end1) (py_range (snd start) end1) tbl of
             (err, tbl') \<Rightarrow> (err, tbl', (Some end0, Some end1)))"

text \<open>
  The defaults of the keyword arguments. \<^verbatim>\<open>start\<close> defaults to a tuple. \<^verbatim>\<open>end\<close>
  defaults to one list object made when the function is defined, and a call that omits
  \<^verbatim>\<open>end\<close> reads and writes that object: its content is state of the module, which
  \<open>to_farenheit_default_end\<close> takes and returns.
\<close>

definition default_start :: "int \<times> int" where
  "default_start = (0, 0)"

definition default_end_at_import :: "int option \<times> int option" where
  "default_end_at_import = (None, None)"

definition to_farenheit_default_end ::
  "'f builtins \<Rightarrow> int option \<times> int option \<Rightarrow> table \<Rightarrow> int \<times> int
     \<Rightarrow> error option \<times> table \<times> (int option \<times> int option)" where
  "to_farenheit_default_end ops default_end tbl start = to_farenheit ops tbl start default_end"

section \<open>Reading a written file back\<close>

text \<open>
  The reader that the round-trip property speaks of is not part of the repository. It
  is defined here from the property's wording: the lines of the text, without their
  line ends, each split at every comma as \<^verbatim>\<open>line.split(",")\<close> does.
\<close>

fun split_on :: "char \<Rightarrow> string \<Rightarrow> string list" where
  "split_on sep [] = [[]]"
| "split_on sep (c # cs) =
     (if c = sep then [] # split_on sep cs
      else (case split_on sep cs of [] \<Rightarrow> [[c]] | p # ps \<Rightarrow> (c # p) # ps))"

definition text_lines :: "string \<Rightarrow> string list" where
  "text_lines txt =
     (let ps = split_on (CHR 0x0A) txt in if last ps = [] then butlast ps else ps)"

definition comma_split_lines :: "string \<Rightarrow> string list list" where
  "comma_split_lines txt = map (split_on (CHR '','')) (text_lines txt)"

section \<open>Arguments that the specification calls invalid\<close>



section \<open>Invariants used in the proofs\<close>

text \<open>
  What the parsing loop maintains once the first row is in: a header is set, the table
  is not empty, every row has as many fields as the header, and the header is empty only
  when there is no split limit.
\<close>

definition rows_match_header :: "int \<Rightarrow> parse_state \<Rightarrow> bool" where
  "rows_match_header maxsplit st =
     (case p_header st of None \<Rightarrow> False
      | Some h \<Rightarrow> p_data st \<noteq> [] \<and> (\<forall>row \<in> set (p_data st). length row = length h)
                   \<and> (h = [] \<longrightarrow> maxsplit = 0))"


section \<open>An instance of the builtins for evaluation\<close>

text \<open>
  To evaluate the model on concrete inputs the builtins are instantiated on plain decimal
  literals (an optional minus sign, digits, optionally a point and more digits) with exact
  rational arithmetic; every other string is rejected. The instance is used only in the
  closed theorems that evaluate an example. The strings converted there are literals of
  this form whose products, sums and quotients a double represents to the printed
  precision, or, like \<^verbatim>\<open>***\<close>, strings that \<^verbatim>\<open>float\<close> rejects as well.
\<close>

definition is_digit :: "char \<Rightarrow> bool" where
  "is_digit c = (c \<in> set ''0123456789'')"

definition digits_value :: "string \<Rightarrow> nat" where
  "digits_value ds = foldl (\<lambda>n c. 10 * n + (of_char c - 48)) 0 ds"

definition split_sign :: "string \<Rightarrow> bool \<times> string" where
  "split_sign s =
     (case s of [] \<Rightarrow> (False, s)
      | c # r \<Rightarrow> if c = CHR ''-'' then (True, r) else (False, s))"

definition dec_int :: "string \<Rightarrow> int option" where
  "dec_int s =
     (let (neg, ds) = split_sign s
      in if ds \<noteq> [] \<and> list_all is_digit ds
         then Some (if neg then - int (digits_value ds) else int (digits_value ds))
         else None)"

definition dec_float :: "string \<Rightarrow> rat option" where
  "dec_float s =
     (let (neg, ds) = split_sign s;
          whole = takeWhile is_digit ds;
          rest = dropWhile is_digit ds;
          sg = (if neg then - 1 else 1)
      in if whole = [] then None
         else (case rest of
                 [] \<Rightarrow> Some (sg * of_nat (digits_value whole))
               | c # fdigits \<Rightarrow>
                   if c = CHR ''.'' \<and> fdigits \<noteq> [] \<and> list_all is_digit fdigits
                   then Some (sg * (of_nat (digits_value whole)
                                + of_nat (digits_value fdigits) / 10 ^ length fdigits))
                   else None))"

fun nat_digits :: "nat \<Rightarrow> string" where
  "nat_digits n =
     (if n < 10 then [char_of (48 + n)]
      else nat_digits (n div 10) @ [char_of (48 + n mod 10)])"

definition round_half_even :: "rat \<Rightarrow> int" where
  "round_half_even q =
     (let n = \<lfloor>q\<rfloor>; r = q - of_int n
      in if r < 1 / 2 then n
         else if 1 / 2 < r then n + 1
         else if even n then n else n + 1)"

definition dec_format_1f :: "rat \<Rightarrow> string" where
  "dec_format_1f q =
     (let t = nat \<bar>round_half_even (q * 10)\<bar>
      in (if q < 0 then ''-'' else '''') @ nat_digits (t div 10) @ ''.'' @ nat_digits (t mod 10))"

definition dec_ops :: "rat builtins" where
  "dec_ops =
     \<lparr>int_of_str = dec_int, float_of_str = dec_float, float_of_int = of_int,
      float_add = (+), float_mul = (*), float_div = (/), float_lit_1_8 = 9 / 5,
      format_1f = dec_format_1f\<rparr>"

section \<open>The aggregator loop on consecutive years\<close>

lemma accumulate_open:
  assumes "y - s + 1 \<noteq> period"
  shows "accumulate ops period
           \<lparr>year_range = [(''start'', s), (''end'', e)], anomaly_sum = a, printed = out\<rparr> (y, v) =
    Inr \<lparr>year_range = [(''start'', s), (''end'', y)],
         anomaly_sum = float_add ops a v, printed = out\<rparr>"
  using assms by (simp add: accumulate_def dict_get_def dict_set_def)

lemma accumulate_close:
  assumes "y - s + 1 = period" and "period \<noteq> 0"
  shows "accumulate ops period
           \<lparr>year_range = [(''start'', s), (''end'', e)], anomaly_sum = a, printed = out\<rparr> (y, v) =
    Inr \<lparr>year_range = [], anomaly_sum = float_of_int ops 0,
         printed = out @ [(s, y, float_div ops (float_add ops a v) (float_of_int ops period))]\<rparr>"
  using assms by (simp add: accumulate_def dict_get_def dict_set_def truediv_int_def)

lemma accumulate_idle_open:
  assumes "year_range st = []" and "period \<noteq> 1"
  shows "accumulate ops period st (y, v) =
    Inr \<lparr>year_range = [(''start'', y), (''end'', y)],
         anomaly_sum = float_add ops (anomaly_sum st) v, printed = printed st\<rparr>"
  using assms by (auto simp add: accumulate_def dict_get_def dict_set_def Let_def)

lemma accumulate_idle_close:
  assumes "year_range st = []" and "period = 1"
  shows "accumulate ops period st (y, v) =
    Inr \<lparr>year_range = [], anomaly_sum = float_of_int ops 0,
         printed = printed st @ [(y, y,
           float_div ops (float_add ops (anomaly_sum st) v) (float_of_int ops period))]\<rparr>"
  using assms by (simp add: accumulate_def dict_get_def dict_set_def Let_def truediv_int_def)

lemma for_rows_partial:
  assumes "length vals = length rows"
    and "\<forall>i<length rows. read_row ops (rows ! i) = Inr (e + 1 + int i, vals ! i)"
    and "e + int (length rows) - s + 1 < period"
  shows "for_rows ops period
           \<lparr>year_range = [(''start'', s), (''end'', e)], anomaly_sum = a, printed = out\<rparr> rows =
         (None, \<lparr>year_range = [(''start'', s), (''end'', e + int (length rows))],
                 anomaly_sum = foldl (float_add ops) a vals, printed = out\<rparr>)"
  using assms
proof (induction rows arbitrary: vals e a)
  case Nil
  then show ?case by simp
next
  case (Cons r rs)
  then obtain v vs where vals: "vals = v # vs" by (cases vals) auto
  from Cons.prems(2) have r: "read_row ops r = Inr (e + 1, v)"
    using vals by fastforce
  have rest: "\<forall>i<length rs. read_row ops (rs ! i) = Inr (e + 1 + 1 + int i, vs ! i)"
  proof (intro allI impI)
    fix i assume "i < length rs"
    then have "read_row ops ((r # rs) ! Suc i) = Inr (e + 1 + int (Suc i), vals ! Suc i)"
      using Cons.prems(2) by (metis Suc_less_eq length_Cons)
    then show "read_row ops (rs ! i) = Inr (e + 1 + 1 + int i, vs ! i)"
      using vals by (simp add: add.commute add.left_commute)
  qed
  have span: "e + 1 - s + 1 \<noteq> period" using Cons.prems(3) by simp
  have step: "loop_body ops period
      \<lparr>year_range = [(''start'', s), (''end'', e)], anomaly_sum = a, printed = out\<rparr> r =
      Inr \<lparr>year_range = [(''start'', s), (''end'', e + 1)],
           anomaly_sum = float_add ops a v, printed = out\<rparr>"
    using accumulate_open [OF span, of ops e a out v] r
    by (simp add: loop_body_def)
  have ih: "for_rows ops period
      \<lparr>year_range = [(''start'', s), (''end'', e + 1)],
       anomaly_sum = float_add ops a v, printed = out\<rparr> rs =
      (None, \<lparr>year_range = [(''start'', s), (''end'', e + 1 + int (length rs))],
                 anomaly_sum = foldl (float_add ops) (float_add ops a v) vs, printed = out\<rparr>)"
  proof (rule Cons.IH)
    show "length vs = length rs" using Cons.prems(1) vals by simp
    show "\<forall>i<length rs. read_row ops (rs ! i) = Inr (e + 1 + 1 + int i, vs ! i)" by (rule rest)
    show "e + 1 + int (length rs) - s + 1 < period" using Cons.prems(3) by simp
  qed
  have len: "e + int (length (r # rs)) = e + 1 + int (length rs)" by simp
  show ?case
    by (simp only: len vals for_rows.simps step sum.case ih foldl_Cons)
qed


lemma shift_rows:
  assumes "\<forall>i<length (r # rs). read_row ops ((r # rs) ! i) = Inr (y + int i, (v # vs) ! i)"
  shows "read_row ops r = Inr (y, v)"
    and "\<forall>i<length rs. read_row ops (rs ! i) = Inr (y + 1 + int i, vs ! i)"
proof -
  from assms have "read_row ops ((r # rs) ! 0) = Inr (y + int 0, (v # vs) ! 0)"
    by blast
  then show "read_row ops r = Inr (y, v)" by simp
  show "\<forall>i<length rs. read_row ops (rs ! i) = Inr (y + 1 + int i, vs ! i)"
  proof (intro allI impI)
    fix i assume "i < length rs"
    then have "Suc i < length (r # rs)" by simp
    with assms have "read_row ops ((r # rs) ! Suc i) = Inr (y + int (Suc i), (v # vs) ! Suc i)"
      by blast
    then show "read_row ops (rs ! i) = Inr (y + 1 + int i, vs ! i)"
      by (simp add: add.commute add.left_commute)
  qed
qed

lemma for_rows_close:
  assumes "rows \<noteq> []" and "length vals = length rows"
    and "\<forall>i<length rows. read_row ops (rows ! i) = Inr (e + 1 + int i, vals ! i)"
    and "e + int (length rows) - s + 1 = period" and "period \<noteq> 0"
  shows "for_rows ops period
           \<lparr>year_range = [(''start'', s), (''end'', e)], anomaly_sum = a, printed = out\<rparr> rows =
         (None, \<lparr>year_range = [], anomaly_sum = float_of_int ops 0,
                 printed = out @ [(s, e + int (length rows),
                   float_div ops (foldl (float_add ops) a vals) (float_of_int ops period))]\<rparr>)"
  using assms
proof (induction rows arbitrary: vals e a)
  case Nil
  then show ?case by simp
next
  case (Cons r rs)
  then obtain v vs where vals: "vals = v # vs" by (cases vals) auto
  note sh = shift_rows [OF Cons.prems(3) [unfolded vals]]
  let ?st = "\<lparr>year_range = [(''start'', s), (''end'', e)], anomaly_sum = a, printed = out\<rparr>"
  have len: "e + int (length (r # rs)) = e + 1 + int (length rs)" by simp
  show ?case
  proof (cases "rs = []")
    case True
    then have vs: "vs = []" using Cons.prems(2) vals by simp
    have span: "e + 1 - s + 1 = period" using Cons.prems(4) True by simp
    have step: "loop_body ops period ?st r =
      Inr \<lparr>year_range = [], anomaly_sum = float_of_int ops 0,
           printed = out @ [(s, e + 1,
             float_div ops (float_add ops a v) (float_of_int ops period))]\<rparr>"
      using accumulate_close [OF span Cons.prems(5), of ops e a out v] sh(1)
      by (simp add: loop_body_def)
    show ?thesis
      by (simp only: True vs vals for_rows.simps step sum.case foldl_Cons foldl_Nil
            list.size add_0_right of_nat_0 of_nat_Suc) simp
  next
    case False
    have span: "e + 1 - s + 1 \<noteq> period" using Cons.prems(4) False by (cases rs) auto
    have step: "loop_body ops period ?st r =
      Inr \<lparr>year_range = [(''start'', s), (''end'', e + 1)],
           anomaly_sum = float_add ops a v, printed = out\<rparr>"
      using accumulate_open [OF span, of ops e a out v] sh(1)
      by (simp add: loop_body_def)
    have ih: "for_rows ops period
        \<lparr>year_range = [(''start'', s), (''end'', e + 1)],
         anomaly_sum = float_add ops a v, printed = out\<rparr> rs =
        (None, \<lparr>year_range = [], anomaly_sum = float_of_int ops 0,
                 printed = out @ [(s, e + 1 + int (length rs),
                   float_div ops (foldl (float_add ops) (float_add ops a v) vs)
                     (float_of_int ops period))]\<rparr>)"
    proof (rule Cons.IH)
      show "rs \<noteq> []" by (rule False)
      show "length vs = length rs" using Cons.prems(2) vals by simp
      show "\<forall>i<length rs. read_row ops (rs ! i) = Inr (e + 1 + 1 + int i, vs ! i)"
        by (rule sh(2))
      show "e + 1 + int (length rs) - s + 1 = period" using Cons.prems(4) by simp
      show "period \<noteq> 0" by (rule Cons.prems(5))
    qed
    show ?thesis
      by (simp only: len vals for_rows.simps step sum.case ih foldl_Cons)
  qed
qed

lemma for_rows_append:
  "for_rows ops period st (xs @ ys) =
     (case for_rows ops period st xs of
        (Some e, st') \<Rightarrow> (Some e, st')
      | (None, st') \<Rightarrow> for_rows ops period st' ys)"
  by (induction xs arbitrary: st) (auto split: sum.splits)

lemma for_rows_window:
  assumes "0 < period" and "length rows = nat period" and "length vals = length rows"
    and "\<forall>i<length rows. read_row ops (rows ! i) = Inr (y0 + int i, vals ! i)"
    and "year_range st = []"
  shows "for_rows ops period st rows =
         (None, \<lparr>year_range = [], anomaly_sum = float_of_int ops 0,
                 printed = printed st @ [(y0, y0 + period - 1,
                   float_div ops (foldl (float_add ops) (anomaly_sum st) vals)
                     (float_of_int ops period))]\<rparr>)"
proof -
  from assms(1,2) obtain r rs where rows: "rows = r # rs" by (cases rows) auto
  with assms(3) obtain v vs where vals: "vals = v # vs" by (cases vals) auto
  note sh = shift_rows [OF assms(4) [unfolded rows vals]]
  have plen: "period = 1 + int (length rs)" using assms(1,2) rows by simp
  show ?thesis
  proof (cases "rs = []")
    case True
    then have vs: "vs = []" using assms(3) rows vals by simp
    have p1: "period = 1" using plen True by simp
    have step: "loop_body ops period st r =
      Inr \<lparr>year_range = [], anomaly_sum = float_of_int ops 0,
           printed = printed st @ [(y0, y0,
             float_div ops (float_add ops (anomaly_sum st) v) (float_of_int ops period))]\<rparr>"
      using accumulate_idle_close [OF assms(5) p1, of ops y0 v] sh(1)
      by (simp add: loop_body_def)
    show ?thesis
      by (simp only: rows True vs vals for_rows.simps step sum.case foldl_Cons foldl_Nil)
         (simp add: p1)
  next
    case False
    have p1: "period \<noteq> 1" using plen False by simp
    have step: "loop_body ops period st r =
      Inr \<lparr>year_range = [(''start'', y0), (''end'', y0)],
           anomaly_sum = float_add ops (anomaly_sum st) v, printed = printed st\<rparr>"
      using accumulate_idle_open [OF assms(5) p1, of ops y0 v] sh(1)
      by (simp add: loop_body_def)
    have rest: "for_rows ops period
        \<lparr>year_range = [(''start'', y0), (''end'', y0)],
         anomaly_sum = float_add ops (anomaly_sum st) v, printed = printed st\<rparr> rs =
        (None, \<lparr>year_range = [], anomaly_sum = float_of_int ops 0,
                 printed = printed st @ [(y0, y0 + int (length rs),
                   float_div ops (foldl (float_add ops) (float_add ops (anomaly_sum st) v) vs)
                     (float_of_int ops period))]\<rparr>)"
    proof (rule for_rows_close)
      show "rs \<noteq> []" by (rule False)
      show "length vs = length rs" using assms(3) rows vals by simp
      show "\<forall>i<length rs. read_row ops (rs ! i) = Inr (y0 + 1 + int i, vs ! i)"
        by (rule sh(2))
      show "y0 + int (length rs) - y0 + 1 = period" using plen by simp
      show "period \<noteq> 0" using assms(1) by simp
    qed
    have e: "y0 + period - 1 = y0 + int (length rs)" using plen by simp
    show ?thesis
      by (simp only: rows vals for_rows.simps step sum.case rest foldl_Cons e)
  qed
qed

lemma for_rows_trailing:
  assumes "rows \<noteq> []" and "int (length rows) < period" and "length vals = length rows"
    and "\<forall>i<length rows. read_row ops (rows ! i) = Inr (y0 + int i, vals ! i)"
    and "year_range st = []"
  shows "for_rows ops period st rows =
         (None, \<lparr>year_range = [(''start'', y0), (''end'', y0 + int (length rows) - 1)],
                 anomaly_sum = foldl (float_add ops) (anomaly_sum st) vals,
                 printed = printed st\<rparr>)"
proof -
  from assms(1) obtain r rs where rows: "rows = r # rs" by (cases rows) auto
  with assms(3) obtain v vs where vals: "vals = v # vs" by (cases vals) auto
  note sh = shift_rows [OF assms(4) [unfolded rows vals]]
  have p1: "period \<noteq> 1" using assms(2) rows by simp
  have step: "loop_body ops period st r =
      Inr \<lparr>year_range = [(''start'', y0), (''end'', y0)],
           anomaly_sum = float_add ops (anomaly_sum st) v, printed = printed st\<rparr>"
    using accumulate_idle_open [OF assms(5) p1, of ops y0 v] sh(1)
    by (simp add: loop_body_def)
  have rest: "for_rows ops period
        \<lparr>year_range = [(''start'', y0), (''end'', y0)],
         anomaly_sum = float_add ops (anomaly_sum st) v, printed = printed st\<rparr> rs =
        (None, \<lparr>year_range = [(''start'', y0), (''end'', y0 + int (length rs))],
                 anomaly_sum = foldl (float_add ops) (float_add ops (anomaly_sum st) v) vs,
                 printed = printed st\<rparr>)"
  proof (rule for_rows_partial)
    show "length vs = length rs" using assms(3) rows vals by simp
    show "\<forall>i<length rs. read_row ops (rs ! i) = Inr (y0 + 1 + int i, vs ! i)"
      by (rule sh(2))
    show "y0 + int (length rs) - y0 + 1 < period" using assms(2) rows by simp
  qed
  have e: "y0 + int (length (r # rs)) - 1 = y0 + int (length rs)" by simp
  show ?thesis
    by (simp only: rows vals for_rows.simps step sum.case rest foldl_Cons e)
qed

section \<open>The aggregator on an empty reader\<close>

text \<open>
  C8. For the empty record sequence the aggregator completes as a no-op: nothing is
  printed and no exception is raised, for every period (zero included) and either value
  of \<^verbatim>\<open>print_last\<close>. In particular no \<^verbatim>\<open>ZeroDivisionError\<close> is raised.
\<close>

theorem display_periodic_avg_empty:
  "display_periodic_avg ops [] period print_last = (None, [])"
  by (simp add: display_periodic_avg_def process_unreported_def)

section \<open>One full window\<close>

text \<open>
  C4. The reader yields exactly \<open>period\<close> records (\<open>period\<close> positive) whose years
  are the consecutive integers \<open>y0, y0 + 1, ...\<close> and whose values are \<open>vals\<close>. Then
  the aggregator raises nothing and prints exactly one window: its start year is the first
  input year, its end year the last one, and its average is the sum of the values, added
  from the left starting with the int 0, divided by \<open>period\<close>. This holds for either
  value of \<^verbatim>\<open>print_last\<close>.
\<close>

theorem periodic_avg_exact_period:
  assumes "0 < period" and "length reader = nat period" and "length vals = nat period"
    and "\<forall>i<nat period. read_row ops (reader ! i) = Inr (y0 + int i, vals ! i)"
  shows "display_periodic_avg ops reader period print_last =
         (None, [(y0, y0 + period - 1,
                  float_div ops (foldl (float_add ops) (float_of_int ops 0) vals)
                    (float_of_int ops period))])"
proof -
  let ?st0 = "\<lparr>year_range = [], anomaly_sum = float_of_int ops 0, printed = []\<rparr>"
  have "for_rows ops period ?st0 reader =
         (None, \<lparr>year_range = [], anomaly_sum = float_of_int ops 0,
                 printed = printed ?st0 @ [(y0, y0 + period - 1,
                   float_div ops (foldl (float_add ops) (anomaly_sum ?st0) vals)
                     (float_of_int ops period))]\<rparr>)"
  proof (rule for_rows_window)
    show "0 < period" by (rule assms(1))
    show "length reader = nat period" by (rule assms(2))
    show "length vals = length reader" using assms(2,3) by simp
    show "\<forall>i<length reader. read_row ops (reader ! i) = Inr (y0 + int i, vals ! i)"
      using assms(2,4) by simp
    show "year_range ?st0 = []" by simp
  qed
  then show ?thesis
    by (simp add: display_periodic_avg_def process_unreported_def)
qed

theorem periodic_avg_exact_period_witness:
  "display_periodic_avg dec_ops
     [[(''Year'', ''1880''), (''J-D'', ''0.5'')], [(''Year'', ''1881''), (''J-D'', ''1.5'')]]
     2 False = (None, [(1880, 1881, 1)])"
proof -
  let ?rows = "[[(''Year'', ''1880''), (''J-D'', ''0.5'')], [(''Year'', ''1881''), (''J-D'', ''1.5'')]]"
  have r0: "read_row dec_ops (?rows ! 0) = Inr (1880, 1 / 2)" by code_simp
  have r1: "read_row dec_ops (?rows ! 1) = Inr (1881, 3 / 2)" by code_simp
  have rows: "\<forall>i<nat 2. read_row dec_ops (?rows ! i) = Inr (1880 + int i, [1 / 2, 3 / 2] ! i)"
  proof (intro allI impI)
    fix i :: nat assume "i < nat 2"
    then have "i = 0 \<or> i = 1" by auto
    then show "read_row dec_ops (?rows ! i) = Inr (1880 + int i, [1 / 2, 3 / 2] ! i)"
      using r0 r1 by auto
  qed
  have "display_periodic_avg dec_ops ?rows 2 False =
         (None, [(1880, 1880 + 2 - 1,
                  float_div dec_ops (foldl (float_add dec_ops) (float_of_int dec_ops 0) [1 / 2, 3 / 2])
                    (float_of_int dec_ops 2))])"
    by (rule periodic_avg_exact_period [OF _ _ _ rows]) simp_all
  then show ?thesis by (simp add: dec_ops_def)
qed

section \<open>A full window followed by a partial one\<close>

text \<open>
  C5. The reader yields \<open>period + k\<close> records with consecutive years, \<open>0 < k < period\<close>,
  and \<^verbatim>\<open>print_last\<close> is true. Then exactly two windows are printed: the first
  covers the first \<open>period\<close> years and divides the sum of their values by \<open>period\<close>;
  the second covers the remaining \<open>k\<close> years and divides the sum of their values by
  \<open>k\<close>.
\<close>

theorem periodic_avg_trailing:
  assumes "0 < k" and "k < period"
    and "length reader = nat (period + k)" and "length vals = nat (period + k)"
    and "\<forall>i<nat (period + k). read_row ops (reader ! i) = Inr (y0 + int i, vals ! i)"
  shows "display_periodic_avg ops reader period True =
         (None,
          [(y0, y0 + period - 1,
            float_div ops (foldl (float_add ops) (float_of_int ops 0) (take (nat period) vals))
              (float_of_int ops period)),
           (y0 + period, y0 + period + k - 1,
            float_div ops (foldl (float_add ops) (float_of_int ops 0) (drop (nat period) vals))
              (float_of_int ops k))])"
proof -
  let ?p = "nat period"
  let ?st0 = "\<lparr>year_range = [], anomaly_sum = float_of_int ops 0, printed = []\<rparr>"
  let ?w1 = "(y0, y0 + period - 1,
            float_div ops (foldl (float_add ops) (float_of_int ops 0) (take ?p vals))
              (float_of_int ops period))"
  let ?st1 = "\<lparr>year_range = [], anomaly_sum = float_of_int ops 0, printed = [?w1]\<rparr>"
  have pos: "0 < period" using assms(1,2) by simp
  have first: "for_rows ops period ?st0 (take ?p reader) =
         (None, \<lparr>year_range = [], anomaly_sum = float_of_int ops 0,
                 printed = printed ?st0 @ [(y0, y0 + period - 1,
                   float_div ops (foldl (float_add ops) (anomaly_sum ?st0) (take ?p vals))
                     (float_of_int ops period))]\<rparr>)"
  proof (rule for_rows_window)
    show "0 < period" by (rule pos)
    show "length (take ?p reader) = nat period" using assms(1,3) pos by simp
    show "length (take ?p vals) = length (take ?p reader)" using assms(3,4) by simp
    show "\<forall>i<length (take ?p reader).
            read_row ops (take ?p reader ! i) = Inr (y0 + int i, take ?p vals ! i)"
      using assms(1,3,5) pos by simp
    show "year_range ?st0 = []" by simp
  qed
  have klen: "length (drop ?p reader) = nat k" using assms(1,3) pos by simp
  have second: "for_rows ops period ?st1 (drop ?p reader) =
         (None, \<lparr>year_range = [(''start'', y0 + period),
                                (''end'', y0 + period + int (length (drop ?p reader)) - 1)],
                 anomaly_sum = foldl (float_add ops) (anomaly_sum ?st1) (drop ?p vals),
                 printed = printed ?st1\<rparr>)"
  proof (rule for_rows_trailing)
    show "drop ?p reader \<noteq> []" using klen assms(1) by auto
    show "int (length (drop ?p reader)) < period" using klen assms(1,2) by simp
    show "length (drop ?p vals) = length (drop ?p reader)" using assms(3,4) by simp
    show "\<forall>i<length (drop ?p reader).
            read_row ops (drop ?p reader ! i) = Inr (y0 + period + int i, drop ?p vals ! i)"
    proof (intro allI impI)
      fix i assume i: "i < length (drop ?p reader)"
      then have lt: "?p + i < nat (period + k)" using assms(3) by simp
      have le1: "?p \<le> length reader" and le2: "?p \<le> length vals"
        using assms(1,3,4) pos by simp_all
      have "read_row ops (reader ! (?p + i)) = Inr (y0 + int (?p + i), vals ! (?p + i))"
        using assms(5) lt by blast
      then show "read_row ops (drop ?p reader ! i) = Inr (y0 + period + int i, drop ?p vals ! i)"
        using le1 le2 pos by (simp add: add.assoc)
    qed
    show "year_range ?st1 = []" by simp
  qed
  have split: "reader = take ?p reader @ drop ?p reader" by simp
  have loop: "for_rows ops period ?st0 reader =
         (None, \<lparr>year_range = [(''start'', y0 + period), (''end'', y0 + period + k - 1)],
                 anomaly_sum = foldl (float_add ops) (float_of_int ops 0) (drop ?p vals),
                 printed = [?w1]\<rparr>)"
    apply (subst split)
    apply (simp only: for_rows_append first)
    using second klen assms(1) by simp
  show ?thesis
    using assms(1) by (simp add: display_periodic_avg_def loop process_unreported_def
        dict_get_def truediv_int_def)
qed

theorem periodic_avg_trailing_witness:
  "display_periodic_avg dec_ops
     [[(''Year'', ''1880''), (''J-D'', ''0.5'')], [(''Year'', ''1881''), (''J-D'', ''1.5'')],
      [(''Year'', ''1882''), (''J-D'', ''0.25'')]]
     2 True = (None, [(1880, 1881, 1), (1882, 1882, 1 / 4)])"
proof -
  let ?rows = "[[(''Year'', ''1880''), (''J-D'', ''0.5'')], [(''Year'', ''1881''), (''J-D'', ''1.5'')],
      [(''Year'', ''1882''), (''J-D'', ''0.25'')]]"
  let ?vals = "[1 / 2, 3 / 2, 1 / 4 :: rat]"
  have r0: "read_row dec_ops (?rows ! 0) = Inr (1880, 1 / 2)" by code_simp
  have r1: "read_row dec_ops (?rows ! 1) = Inr (1881, 3 / 2)" by code_simp
  have r2: "read_row dec_ops (?rows ! 2) = Inr (1882, 1 / 4)" by code_simp
  have rows: "\<forall>i<nat (2 + 1). read_row dec_ops (?rows ! i) = Inr (1880 + int i, ?vals ! i)"
  proof (intro allI impI)
    fix i :: nat assume "i < nat (2 + 1)"
    then have "i = 0 \<or> i = 1 \<or> i = 2" by auto
    then show "read_row dec_ops (?rows ! i) = Inr (1880 + int i, ?vals ! i)"
      using r0 r1 r2 by auto
  qed
  have "display_periodic_avg dec_ops ?rows 2 True =
         (None,
          [(1880, 1880 + 2 - 1,
            float_div dec_ops (foldl (float_add dec_ops) (float_of_int dec_ops 0) (take (nat 2) ?vals))
              (float_of_int dec_ops 2)),
           (1880 + 2, 1880 + 2 + 1 - 1,
            float_div dec_ops (foldl (float_add dec_ops) (float_of_int dec_ops 0) (drop (nat 2) ?vals))
              (float_of_int dec_ops 1))])"
    by (rule periodic_avg_trailing [OF _ _ _ _ rows]) simp_all
  then show ?thesis by (simp add: dec_ops_def)
qed

section \<open>Invalid arguments are rejected before any file is touched\<close>



section \<open>No split limit\<close>

text \<open>
  With \<^verbatim>\<open>col_len\<close> omitted or 0 the split itself is unlimited, but the slice
  \<^verbatim>\<open>source_row[:min(len(source_row), maxsplit)]\<close> is then \<^verbatim>\<open>source_row[:0]\<close>:
  every row is empty, the first becomes the header, and each later one equals the header
  and is skipped.
\<close>

lemma parse_row_no_limit_first:
  "parse_row start 0 \<lparr>p_file = content, p_header = None, p_data = []\<rparr> start =
   \<lparr>p_file = snd (readline content), p_header = Some [], p_data = [[]]\<rparr>"
  by (simp add: parse_row_def slice_to_def split: prod.splits)

lemma parse_row_no_limit_later:
  "parse_row start 0 \<lparr>p_file = content, p_header = Some [], p_data = [[]]\<rparr> n =
   \<lparr>p_file = snd (readline content), p_header = Some [], p_data = [[]]\<rparr>"
  by (simp add: parse_row_def slice_to_def split: prod.splits)

lemma foldl_parse_row_no_limit:
  "p_data (foldl (parse_row start 0) \<lparr>p_file = content, p_header = Some [], p_data = [[]]\<rparr> ns) = [[]]"
  by (induction ns arbitrary: content) (simp_all add: parse_row_no_limit_later)

lemma parse_rows_no_limit:
  assumes "start \<le> endl"
  shows "parse_rows start endl 0 content = [[]]"
proof -
  have "py_range start (endl + 1) = start # py_range (start + 1) (endl + 1)"
    using assms by (simp add: py_range_def upto_rec1)
  then show ?thesis
    by (simp add: parse_rows_def parse_row_no_limit_first foldl_parse_row_no_limit)
qed

text \<open>
  C2, evaluated. The file holds the one line \<^verbatim>\<open>a b c\<close> and \<^verbatim>\<open>start = end = 1\<close>.
  With \<^verbatim>\<open>col_len\<close> omitted, and likewise with \<^verbatim>\<open>col_len = 0\<close>, the call returns
  the table \<^verbatim>\<open>[[]]\<close>: its only row has no field, where the claim promises the full
  list of fields of the line.
\<close>

theorem no_limit_drops_every_field:
  "parse_fixed_width_data \<lparr>files = [(''in.fwf'', ''a b c\<newline>'')], opened = []\<rparr> ''in.fwf''
     (PyInt 1) (PyInt 1) PyNone [] False =
   (Inr (Some [[]]), \<lparr>files = [(''in.fwf'', ''a b c\<newline>'')], opened = [OpenRead ''in.fwf'']\<rparr>) \<and>
   parse_fixed_width_data \<lparr>files = [(''in.fwf'', ''a b c\<newline>'')], opened = []\<rparr> ''in.fwf''
     (PyInt 1) (PyInt 1) (PyInt 0) [] False =
   (Inr (Some [[]]), \<lparr>files = [(''in.fwf'', ''a b c\<newline>'')], opened = [OpenRead ''in.fwf'']\<rparr>)"
  by code_simp

section \<open>Every parsed row has the header's field count\<close>

lemma re_split_from_nonempty: "re_split_from n maxsplit s \<noteq> []"
  by (subst re_split_from.simps) (simp split: list.splits)

lemma data_row_empty_iff:
  assumes "0 \<le> maxsplit"
  shows "slice_to (re_split maxsplit line) (min (int (length (re_split maxsplit line))) maxsplit) = []
         \<longleftrightarrow> maxsplit = 0"
proof -
  have "re_split maxsplit line \<noteq> []"
    by (simp add: re_split_def re_split_from_nonempty)
  then have "0 < length (re_split maxsplit line)" by simp
  then show ?thesis using assms
    by (auto simp add: slice_to_def min_def)
qed

lemma parse_row_first:
  assumes "0 \<le> maxsplit"
  shows "rows_match_header maxsplit
           (parse_row start maxsplit \<lparr>p_file = content, p_header = None, p_data = []\<rparr> start)"
  using data_row_empty_iff [OF assms]
  by (simp add: parse_row_def rows_match_header_def Let_def split: prod.splits)

lemma parse_row_keeps:
  assumes "0 \<le> maxsplit" and "rows_match_header maxsplit st"
  shows "rows_match_header maxsplit (parse_row start maxsplit st n)"
proof -
  from assms(2) obtain h where h: "p_header st = Some h" "p_data st \<noteq> []"
    "\<forall>row \<in> set (p_data st). length row = length h" "h = [] \<longrightarrow> maxsplit = 0"
    by (auto simp: rows_match_header_def split: option.splits)
  obtain line rest where rl: "readline (p_file st) = (line, rest)" by (cases "readline (p_file st)")
  let ?row = "slice_to (re_split maxsplit line) (min (int (length (re_split maxsplit line))) maxsplit)"
  note e = data_row_empty_iff [OF assms(1), of line]
  show ?thesis
  proof (cases "h \<noteq> [] \<and> length ?row \<noteq> length h")
    case True
    then show ?thesis using h rl
      by (simp add: parse_row_def rows_match_header_def Let_def)
  next
    case False
    show ?thesis
    proof (cases "Some ?row = p_header st")
      case True
      then show ?thesis using h rl False
        by (simp add: parse_row_def rows_match_header_def Let_def)
    next
      case neq: False
      have "h \<noteq> []"
      proof
        assume "h = []"
        with h(4) have "maxsplit = 0" by simp
        with e have "?row = []" by simp
        with neq h(1) \<open>h = []\<close> show False by simp
      qed
      with False have len: "length ?row = length h" by simp
      with \<open>h \<noteq> []\<close> have "?row \<noteq> []" by auto
      then show ?thesis using h rl False neq len e
        by (auto simp add: parse_row_def rows_match_header_def Let_def)
    qed
  qed
qed

lemma foldl_parse_row_keeps:
  assumes "0 \<le> maxsplit" and "rows_match_header maxsplit st"
  shows "rows_match_header maxsplit (foldl (parse_row start maxsplit) st ns)"
  using assms(2) by (induction ns arbitrary: st) (simp_all add: parse_row_keeps [OF assms(1)])

lemma parse_rows_match_header:
  assumes "0 \<le> maxsplit" and "start \<le> endl"
  shows "parse_rows start endl maxsplit content \<noteq> [] \<and>
         (\<forall>row \<in> set (parse_rows start endl maxsplit content).
            length row = length (parse_rows start endl maxsplit content ! 0))"
proof -
  have r: "py_range start (endl + 1) = start # py_range (start + 1) (endl + 1)"
    using assms(2) by (simp add: py_range_def upto_rec1)
  let ?st = "foldl (parse_row start maxsplit)
               \<lparr>p_file = skip_lines start content, p_header = None, p_data = []\<rparr>
               (py_range start (endl + 1))"
  have "rows_match_header maxsplit ?st"
    unfolding r foldl_Cons
    by (rule foldl_parse_row_keeps [OF assms(1) parse_row_first [OF assms(1)]])
  then obtain h where hd: "p_header ?st = Some h"
    and inv: "rows_match_header maxsplit ?st"
    unfolding rows_match_header_def by (cases "p_header ?st") simp_all
  from inv hd have ne: "p_data ?st \<noteq> []"
    and all: "\<forall>row \<in> set (p_data ?st). length row = length h"
    unfolding rows_match_header_def by simp_all
  from ne have "p_data ?st ! 0 \<in> set (p_data ?st)" by simp
  with all have "length (p_data ?st ! 0) = length h" by blast
  with ne all
  have "p_data ?st \<noteq> [] \<and> (\<forall>row \<in> set (p_data ?st). length row = length (p_data ?st ! 0))"
    by metis
  then show ?thesis unfolding parse_rows_def .
qed

text \<open>
  C6. For a valid call that returns the table (positive \<^verbatim>\<open>start \<le> end\<close>,
  \<^verbatim>\<open>col_len\<close> omitted or a non-negative int, an existing source file, no
  destination) the call raises nothing, the table is not empty, and every row has as many
  fields as the first row, the header. A line with another field count never raises: it
  is absent from the table.
\<close>

theorem parsed_rows_match_header:
  assumes "0 < s" and "s \<le> e"
    and "col_len = PyNone \<or> (\<exists>n\<ge>0. col_len = PyInt n)"
    and "map_of (files w) path = Some content"
  shows "\<exists>tbl. fst (parse_fixed_width_data w path (PyInt s) (PyInt e) col_len [] overwrite)
                  = Inr (Some tbl)
               \<and> tbl \<noteq> [] \<and> (\<forall>row \<in> set tbl. length row = length (tbl ! 0))"
proof -
  let ?m = "if truthy col_len then as_int col_len else NO_RESTRICTION"
  have m: "0 \<le> ?m" using assms(3)
    by (auto simp: truthy_def as_int_def NO_RESTRICTION_def)
  have ok: "\<not> (col_len \<noteq> PyNone \<and> \<not> is_postive_integer col_len \<and> ne_zero col_len)"
    using assms(3) by (auto simp: is_postive_integer_def ne_zero_def)
  have "fst (parse_fixed_width_data w path (PyInt s) (PyInt e) col_len [] overwrite)
          = Inr (Some (parse_rows s e ?m content))"
    using assms(1,2,4) ok
    by (simp add: parse_fixed_width_data_def is_postive_integer_def as_int_def Let_def)
  then show ?thesis
    using parse_rows_match_header [OF m assms(2), of content] by blast
qed

theorem parsed_rows_match_header_witness:
  "fst (parse_fixed_width_data
          \<lparr>files = [(''in.fwf'', ''Year Jan Feb\<newline>1880 -1 2\<newline>note\<newline>Year Jan Feb\<newline>1881 3 4 5\<newline>'')],
           opened = []\<rparr>
          ''in.fwf'' (PyInt 1) (PyInt 5) (PyInt 3) [] False)
     = Inr (Some [[''Year'', ''Jan'', ''Feb''], [''1880'', ''-1'', ''2''], [''1881'', ''3'', ''4'']])"
proof -
  let ?w = "\<lparr>files = [(''in.fwf'', ''Year Jan Feb\<newline>1880 -1 2\<newline>note\<newline>Year Jan Feb\<newline>1881 3 4 5\<newline>'')],
           opened = []\<rparr>"
  have "\<exists>tbl. fst (parse_fixed_width_data ?w ''in.fwf'' (PyInt 1) (PyInt 5) (PyInt 3) [] False)
                  = Inr (Some tbl)
               \<and> tbl \<noteq> [] \<and> (\<forall>row \<in> set tbl. length row = length (tbl ! 0))"
    by (rule parsed_rows_match_header [where content = "''Year Jan Feb\<newline>1880 -1 2\<newline>note\<newline>Year Jan Feb\<newline>1881 3 4 5\<newline>''"]) simp_all
  moreover have "fst (parse_fixed_width_data ?w ''in.fwf'' (PyInt 1) (PyInt 5) (PyInt 3) [] False)
     = Inr (Some [[''Year'', ''Jan'', ''Feb''], [''1880'', ''-1'', ''2''], [''1881'', ''3'', ''4'']])"
    by code_simp
  ultimately show ?thesis by simp
qed

section \<open>The conversion pass on a cell that is not a number\<close>

text \<open>
  C1, evaluated. The table is \<^verbatim>\<open>[["Year", "Jan"], ["1880", "***"]]\<close> and the call is
  \<^verbatim>\<open>_to_farenheit(data, start=(1, 1))\<close> as in \<^verbatim>\<open>main\<close>. The bounds resolve to
  \<^verbatim>\<open>[2, 4]\<close>, the first cell of the region is \<^verbatim>\<open>"***"\<close>, the test
  \<^verbatim>\<open>not entry.isnumeric\<close> is false, and \<^verbatim>\<open>float("***")\<close> raises
  \<^verbatim>\<open>ValueError\<close>: the cell does not pass through.
\<close>

theorem non_numeric_cell_raises:
  "to_farenheit dec_ops [[''Year'', ''Jan''], [''1880'', ''***'']] (1, 1) default_end_at_import =
   (Some ValueError, [[''Year'', ''Jan''], [''1880'', ''***'']], (Some 2, Some 4))"
  by code_simp

section \<open>The region of the conversion pass\<close>












section \<open>Writing a table and splitting it again\<close>

text \<open>
  C7 as stated fails on a table with a row that has no field, such as the table
  \<^verbatim>\<open>[[]]\<close> that \<^verbatim>\<open>parse_fixed_width_data\<close> returns when \<^verbatim>\<open>col_len\<close> is 0: the
  row is written as an empty line, and splitting the empty line at commas gives one empty
  field, not none. No field contains a comma here.
\<close>

theorem empty_row_round_trip_counterexample:
  "write_csv \<lparr>files = [], opened = []\<rparr> ''out.csv'' [[]] False =
     (Inr (), \<lparr>files = [(''out.csv'', ''\<newline>'')], opened = [OpenWrite ''out.csv'']\<rparr>) \<and>
   comma_split_lines ''\<newline>'' = [['''']] \<and> [['''']] \<noteq> [[] :: string list]"
  by code_simp

lemma split_on_nonempty: "split_on sep s \<noteq> []"
  by (induction s) (auto split: list.splits)

lemma split_on_no_sep: "sep \<notin> set s \<Longrightarrow> split_on sep s = [s]"
  by (induction s) auto

lemma split_on_append:
  "sep \<notin> set x \<Longrightarrow> split_on sep (x @ sep # r) = x # split_on sep r"
  by (induction x) auto

lemma split_on_join:
  assumes "row \<noteq> []" and "\<forall>f \<in> set row. sep \<notin> set f"
  shows "split_on sep (join [sep] row) = row"
  using assms
proof (induction "[sep]" row rule: join.induct)
  case 1
  then show ?case by simp
next
  case (2 x)
  then show ?case by (simp add: split_on_no_sep)
next
  case (3 x y ys)
  then show ?case by (simp add: split_on_append)
qed

lemma set_join: "set (join sep row) \<subseteq> set sep \<union> \<Union> (set ` set row)"
  by (induction sep row rule: join.induct) auto

lemma split_on_lines:
  assumes "\<forall>l \<in> set ls. nl \<notin> set l"
  shows "split_on nl (concat (map (\<lambda>l. l @ [nl]) ls)) = ls @ [[]]"
  using assms by (induction ls) (simp_all add: split_on_append)

lemma text_lines_concat:
  assumes "\<forall>l \<in> set ls. CHR 0x0A \<notin> set l"
  shows "text_lines (concat (map (\<lambda>l. l @ [CHR 0x0A]) ls)) = ls"
  by (simp add: text_lines_def split_on_lines [OF assms])

lemma comma_split_csv_text:
  assumes "\<forall>row \<in> set tbl. row \<noteq> [] \<and> (\<forall>f \<in> set row. CHR '','' \<notin> set f \<and> CHR 0x0A \<notin> set f)"
  shows "comma_split_lines (csv_text tbl) = tbl"
proof -
  let ?ls = "map (join '','') tbl"
  have nl: "\<forall>l \<in> set ?ls. CHR 0x0A \<notin> set l"
  proof
    fix l assume "l \<in> set ?ls"
    then obtain row where row: "row \<in> set tbl" and l: "l = join '','' row" by auto
    have "set l \<subseteq> set '','' \<union> \<Union> (set ` set row)" unfolding l by (rule set_join)
    moreover have "CHR 0x0A \<notin> set '',''" by simp
    moreover have "CHR 0x0A \<notin> \<Union> (set ` set row)" using assms row by blast
    ultimately show "CHR 0x0A \<notin> set l" by blast
  qed
  have "csv_text tbl = concat (map (\<lambda>l. l @ [CHR 0x0A]) ?ls)"
    by (simp add: csv_text_def comp_def)
  then have "text_lines (csv_text tbl) = ?ls"
    using text_lines_concat [OF nl] by simp
  then have "comma_split_lines (csv_text tbl) = map (\<lambda>row. split_on (CHR '','') (join '','' row)) tbl"
    by (simp add: comma_split_lines_def comp_def)
  also have "\<dots> = map (\<lambda>row. row) tbl"
  proof (rule map_cong [OF refl])
    fix row assume "row \<in> set tbl"
    with assms have "row \<noteq> []" and "\<forall>f \<in> set row. CHR '','' \<notin> set f" by auto
    then show "split_on (CHR '','') (join '','' row) = row"
      using split_on_join [of row "CHR '',''"] by simp
  qed
  finally show ?thesis by simp
qed

lemma written_text:
  assumes "overwrite \<or> \<not> isfile w destination" and "destination \<noteq> []"
  shows "\<exists>w'. write_csv w destination tbl overwrite = (Inr (), w') \<and>
              map_of (files w') destination = Some (csv_text tbl)"
  using assms by (auto simp add: write_csv_def dict_set_def update_conv')

text \<open>
  C7, amended. For every table in which no row is empty and no field contains a comma or
  a line feed, writing it with \<^verbatim>\<open>write_csv\<close> (when the write is allowed: the
  destination path is not empty, and it is new or \<^verbatim>\<open>overwrite\<close> is set) and
  splitting each written line at commas gives back exactly the rows of the table, in
  order.
\<close>

theorem write_then_split_round_trip:
  assumes "\<forall>row \<in> set tbl. row \<noteq> [] \<and> (\<forall>f \<in> set row. CHR '','' \<notin> set f \<and> CHR 0x0A \<notin> set f)"
    and "overwrite \<or> \<not> isfile w destination" and "destination \<noteq> []"
  shows "\<exists>w'. write_csv w destination tbl overwrite = (Inr (), w') \<and>
              map_option comma_split_lines (map_of (files w') destination) = Some tbl"
  using written_text [OF assms(2,3), of tbl] comma_split_csv_text [OF assms(1)] by auto

theorem write_then_split_round_trip_witness:
  "write_csv \<lparr>files = [], opened = []\<rparr> ''out.csv'' [[''Year'', ''Jan''], [''1880'', ''-.5'']] False =
     (Inr (), \<lparr>files = [(''out.csv'', ''Year,Jan\<newline>1880,-.5\<newline>'')], opened = [OpenWrite ''out.csv'']\<rparr>) \<and>
   comma_split_lines ''Year,Jan\<newline>1880,-.5\<newline>'' = [[''Year'', ''Jan''], [''1880'', ''-.5'']]"
proof -
  let ?tbl = "[[''Year'', ''Jan''], [''1880'', ''-.5'']]"
  let ?w = "\<lparr>files = [], opened = []\<rparr>"
  have h1: "\<forall>row \<in> set ?tbl. row \<noteq> [] \<and> (\<forall>f \<in> set row. CHR '','' \<notin> set f \<and> CHR 0x0A \<notin> set f)"
    by simp
  have h2: "False \<or> \<not> isfile ?w ''out.csv''" by (simp add: isfile_def)
  have w: "write_csv ?w ''out.csv'' ?tbl False =
     (Inr (), \<lparr>files = [(''out.csv'', ''Year,Jan\<newline>1880,-.5\<newline>'')], opened = [OpenWrite ''out.csv'']\<rparr>)"
    by code_simp
  have h3: "''out.csv'' \<noteq> []" by simp
  from write_then_split_round_trip [OF h1 h2 h3] w show ?thesis by auto
qed

section \<open>The shared default of end\<close>

lemma resolve_bound_None: "resolve_bound None d = d"
  by (simp add: resolve_bound_def)

lemma resolve_bound_Some: "v \<noteq> 0 \<Longrightarrow> resolve_bound (Some v) d = v"
  by (simp add: resolve_bound_def)

text \<open>
  C10. A call that omits \<^verbatim>\<open>end\<close> on a non-empty table whose first cell is not the
  empty string, made when the default list is still \<^verbatim>\<open>[None, None]\<close>, leaves the
  list holding the bounds of that table. Any later call that omits \<^verbatim>\<open>end\<close>, on any
  non-empty table, iterates rows and columns up to the length of the first cell of the earlier
  table: it does not compute bounds from its own table. So the region converted depends
  on the calls made before, not only on the explicit arguments.
\<close>

theorem default_end_keeps_earlier_bounds:
  assumes "tbl \<noteq> []" and "tbl ! 0 \<noteq> []" and "tbl ! 0 ! 0 \<noteq> []"
    and "to_farenheit_default_end ops default_end_at_import tbl start = (err, tbl1, default_end1)"
    and "tbl2 \<noteq> []" and "tbl2 ! 0 \<noteq> []"
  shows "default_end1 = (Some (int (length tbl)), Some (int (length (tbl ! 0 ! 0)))) \<and>
         to_farenheit_default_end ops default_end1 tbl2 start2 =
           (case convert_rows ops
                   (py_range (fst start2) (int (length (tbl ! 0 ! 0))))
                   (py_range (snd start2) (int (length (tbl ! 0 ! 0)))) tbl2 of
              (err2, tbl2') \<Rightarrow> (err2, tbl2', default_end1))"
proof -
  have d1: "default_end1 = (Some (int (length tbl)), Some (int (length (tbl ! 0 ! 0))))"
    using assms(1,2,4)
    by (auto simp add: to_farenheit_default_end_def to_farenheit_def default_end_at_import_def
        resolve_bound_None Let_def split: prod.splits)
  have n0: "int (length tbl) \<noteq> 0" and n1: "int (length (tbl ! 0 ! 0)) \<noteq> 0"
    using assms(1,3) by simp_all
  show ?thesis
    using assms(5,6) n0 n1
    by (simp add: d1 to_farenheit_default_end_def to_farenheit_def
        resolve_bound_Some Let_def split: prod.splits)
qed

theorem default_end_keeps_earlier_bounds_witness:
  "to_farenheit_default_end dec_ops default_end_at_import
     [[''1'', ''2'', ''3''], [''4'', ''5'', ''6''], [''7'', ''8'', ''9'']] default_start =
     (None, [[''1.8'', ''2'', ''3''], [''4'', ''5'', ''6''], [''7'', ''8'', ''9'']], (Some 3, Some 1)) \<and>
   to_farenheit_default_end dec_ops (Some 3, Some 1)
     [[''1.8'', ''2'', ''3''], [''4'', ''5'', ''6''], [''7'', ''8'', ''9'']] default_start =
     (None, [[''3.2'', ''2'', ''3''], [''4'', ''5'', ''6''], [''7'', ''8'', ''9'']], (Some 3, Some 1)) \<and>
   to_farenheit_default_end dec_ops default_end_at_import
     [[''1.8'', ''2'', ''3''], [''4'', ''5'', ''6''], [''7'', ''8'', ''9'']] default_start =
     (None, [[''3.2'', ''3.6'', ''5.4''], [''7.2'', ''9.0'', ''10.8''], [''12.6'', ''14.4'', ''16.2'']],
      (Some 3, Some 3))"
proof -
  let ?t = "[[''1'', ''2'', ''3''], [''4'', ''5'', ''6''], [''7'', ''8'', ''9'']]"
  let ?t1 = "[[''1.8'', ''2'', ''3''], [''4'', ''5'', ''6''], [''7'', ''8'', ''9'']]"
  have first: "to_farenheit_default_end dec_ops default_end_at_import ?t default_start =
     (None, ?t1, (Some 3, Some 1))"
    by code_simp
  have iter: "convert_rows dec_ops (py_range (fst default_start) (int (length (?t ! 0 ! 0))))
      (py_range (snd default_start) (int (length (?t ! 0 ! 0)))) ?t1 =
      (None, [[''3.2'', ''2'', ''3''], [''4'', ''5'', ''6''], [''7'', ''8'', ''9'']])"
    by code_simp
  have fresh: "to_farenheit_default_end dec_ops default_end_at_import ?t1 default_start =
     (None, [[''3.2'', ''3.6'', ''5.4''], [''7.2'', ''9.0'', ''10.8''], [''12.6'', ''14.4'', ''16.2'']],
      (Some 3, Some 3))"
    by code_simp
  have "to_farenheit_default_end dec_ops (Some 3, Some 1) ?t1 default_start =
           (case convert_rows dec_ops
                   (py_range (fst default_start) (int (length (?t ! 0 ! 0))))
                   (py_range (snd default_start) (int (length (?t ! 0 ! 0)))) ?t1 of
              (err2, tbl2') \<Rightarrow> (err2, tbl2', (Some 3, Some 1)))"
    using default_end_keeps_earlier_bounds [OF _ _ _ first, of ?t1 default_start] by simp
  then have "to_farenheit_default_end dec_ops (Some 3, Some 1) ?t1 default_start =
     (None, [[''3.2'', ''2'', ''3''], [''4'', ''5'', ''6''], [''7'', ''8'', ''9'']], (Some 3, Some 1))"
    by (simp only: iter prod.case)
  with first fresh show ?thesis by simp
qed

end
